theory Spec2Isabelle
  imports Main "HOL-Library.AList" "HOL-Library.Sublist"
begin

text \<open>
  The plugin \<open>lib/index.js\<close>: a registry of named policies, loaded from a directory,
  one handler for each of the six extension points of the host, which picks the policies
  of the route that belong to its point, and \<open>runPolicies\<close>, which runs them in series
  and replies.
\<close>

section \<open>JavaScript values\<close>

text \<open>
  The values that reach the plugin from outside: the \<open>applyPoint\<close> attribute of a policy
  function and the three arguments a policy hands to its completion callback. Numbers are
  integers here (no \<open>NaN\<close>, no fractions); \<open>JObject d\<close> is any object, \<open>d\<close> being what
  \<open>String(...)\<close> makes of it.
\<close>

datatype js_value = JUndefined | JNull | JBool bool | JNum int | JStr string | JObject string

text \<open>What \<open>if (v)\<close>, \<open>!v\<close> and \<open>v || w\<close> test.\<close>

fun truthy :: "js_value \<Rightarrow> bool" where
  "truthy JUndefined = False"
| "truthy JNull = False"
| "truthy (JBool b) = b"
| "truthy (JNum n) = (n \<noteq> 0)"
| "truthy (JStr s) = (s \<noteq> [])"
| "truthy (JObject d) = True"

fun nat_to_string :: "nat \<Rightarrow> string" where
  "nat_to_string n =
     (if n < 10 then [''0123456789'' ! n]
      else nat_to_string (n div 10) @ [''0123456789'' ! (n mod 10)])"

text \<open>The string that \<open>'...' + v\<close> appends.\<close>

fun js_toString :: "js_value \<Rightarrow> string" where
  "js_toString JUndefined = ''undefined''"
| "js_toString JNull = ''null''"
| "js_toString (JBool b) = (if b then ''true'' else ''false'')"
| "js_toString (JNum n) = (if n < 0 then ''-'' @ nat_to_string (nat (- n)) else nat_to_string (nat n))"
| "js_toString (JStr s) = s"
| "js_toString (JObject d) = d"

text \<open>
  Error objects: \<open>new Error(msg)\<close>, the three Boom constructors the plugin calls with the
  message it gives them, and whatever truthy value a policy passes as its \<open>err\<close>.
\<close>

datatype boom = Forbidden | NotImplemented | BadImplementation

datatype js_error = Error string | Boom boom js_value | Custom js_value

section \<open>Apply points\<close>

datatype apply_point = OnRequest | OnPreAuth | OnPostAuth | OnPreHandler | OnPostHandler | OnPreResponse

definition applyPoints :: "apply_point list" where
  "applyPoints = [OnRequest, OnPreAuth, OnPostAuth, OnPreHandler, OnPostHandler, OnPreResponse]"

fun applyPoint_name :: "apply_point \<Rightarrow> string" where
  "applyPoint_name OnRequest = ''onRequest''"
| "applyPoint_name OnPreAuth = ''onPreAuth''"
| "applyPoint_name OnPostAuth = ''onPostAuth''"
| "applyPoint_name OnPreHandler = ''onPreHandler''"
| "applyPoint_name OnPostHandler = ''onPostHandler''"
| "applyPoint_name OnPreResponse = ''onPreResponse''"

text \<open>
  \<open>_applyPoints.indexOf(v)\<close>: the entry strictly equal to \<open>v\<close>, if there is one. Only a
  primitive string can be strictly equal to an entry.
\<close>

fun applyPoints_indexOf :: "js_value \<Rightarrow> apply_point option" where
  "applyPoints_indexOf (JStr s) = find (\<lambda>a. applyPoint_name a = s) applyPoints"
| "applyPoints_indexOf v = None"

section \<open>Policies\<close>

text \<open>
  A policy is a function \<open>policy(request, reply, callback)\<close> with an optional attribute
  \<open>applyPoint\<close>. Its \<open>body\<close> is the completion signal \<open>callback(err, canContinue, message)\<close>
  it sends for a request, \<open>None\<close> when it never calls back; \<open>label\<close> tells one function
  from another in the record of invocations.
\<close>

record signal =
  err :: js_value
  canContinue :: js_value
  message :: js_value

record 'r policy =
  label :: string
  applyPoint :: js_value
  body :: "'r \<Rightarrow> signal option"

definition hasValidApplyPoint :: "'r policy \<Rightarrow> bool" where
  "hasValidApplyPoint p =
     (\<not> truthy (applyPoint p) \<or> applyPoints_indexOf (applyPoint p) \<noteq> None)"

section \<open>The reply interface of the host\<close>

text \<open>
  The host hands every extension handler a \<open>reply\<close> object. \<open>reply(err)\<close> and
  \<open>reply.continue()\<close> finalize the response and set \<open>reply._replied\<close>; \<open>sent\<close> lists what
  the plugin has handed over through this object, oldest first.
\<close>

datatype outcome = Continue | Respond js_error

record reply =
  replied :: bool
  sent :: "outcome list"

definition fresh_reply :: reply where
  "fresh_reply = \<lparr>replied = False, sent = []\<rparr>"

definition reply_with :: "js_error \<Rightarrow> reply \<Rightarrow> reply" where
  "reply_with e r = r\<lparr>replied := True, sent := sent r @ [Respond e]\<rparr>"

definition reply_continue :: "reply \<Rightarrow> reply" where
  "reply_continue r = r\<lparr>replied := True, sent := sent r @ [Continue]\<rparr>"

section \<open>Async.eachSeries\<close>

text \<open>
  \<open>Async.eachSeries(arr, iterator, callback)\<close> for an iterator that calls its \<open>next\<close> at
  most once per item: the items are visited in order, each after the one before it has
  called \<open>next\<close> without an error; the first error goes to \<open>callback\<close> at once and ends the
  series; an item that never calls \<open>next\<close> leaves \<open>callback\<close> uncalled. The iterator is
  given the state \<open>'s\<close> it works on and returns it with what it told \<open>next\<close>.
\<close>

datatype 'e completion = Never | Called "'e option"

fun eachSeries :: "'a list \<Rightarrow> ('a \<Rightarrow> 's \<Rightarrow> 'e completion \<times> 's) \<Rightarrow> 's \<Rightarrow> 'e completion \<times> 's" where
  "eachSeries [] iterator s = (Called None, s)"
| "eachSeries (x # xs) iterator s =
     (case iterator x s of
        (Never, s') \<Rightarrow> (Never, s')
      | (Called (Some e), s') \<Rightarrow> (Called (Some e), s')
      | (Called None, s') \<Rightarrow> eachSeries xs iterator s')"

section \<open>runPolicies\<close>

text \<open>
  The callback \<open>checkPolicy\<close> hands to the policy: what it passes on to \<open>next\<close> for a
  signal \<open>(err, canContinue, message)\<close>.
\<close>

definition signalled :: "signal \<Rightarrow> js_error option" where
  "signalled s =
     (if truthy (err s) then Some (Custom (err s))
      else if truthy (canContinue s) then None
      else Some (Boom Forbidden (message s)))"

text \<open>\<open>checkPolicy\<close> invokes the policy; the state is the list of policies invoked so far.\<close>

definition checkPolicy :: "'r \<Rightarrow> 'r policy \<Rightarrow> string list \<Rightarrow> js_error completion \<times> string list" where
  "checkPolicy request p invoked =
     (case body p request of
        None \<Rightarrow> (Never, invoked @ [label p])
      | Some s \<Rightarrow> (Called (signalled s), invoked @ [label p]))"

text \<open>The final callback of the series: it looks at \<open>reply._replied\<close> before it emits.\<close>

definition allDone :: "js_error option \<Rightarrow> reply \<Rightarrow> reply" where
  "allDone e r =
     (if \<not> replied r then
        (case e of Some x \<Rightarrow> reply_with x r | None \<Rightarrow> reply_continue r)
      else r)"

record run =
  reply_after :: reply
  invoked :: "string list"

definition runPolicies :: "'r policy list \<Rightarrow> 'r \<Rightarrow> reply \<Rightarrow> run" where
  "runPolicies policiesToRun request r =
     (case eachSeries policiesToRun (checkPolicy request) [] of
        (Never, tr) \<Rightarrow> \<lparr>reply_after = r, invoked = tr\<rparr>
      | (Called e, tr) \<Rightarrow> \<lparr>reply_after = allDone e r, invoked = tr\<rparr>)"

section \<open>The registry and the route directives\<close>

text \<open>
  The module-wide object \<open>data\<close>: the names in the order they were pushed, the object
  \<open>setHandlers\<close>, and for each apply point the object \<open>data[applyPoint]\<close> that maps a
  policy name to its function, keys in the order they were set. Policy names are taken
  not to be names of members of \<open>Object.prototype\<close>.
\<close>

record 'r data =
  names :: "string list"
  setHandlers :: "(apply_point \<times> bool) list"
  policiesAt :: "apply_point \<Rightarrow> (string \<times> 'r policy) list"

definition reset :: "'r data" where
  "reset = \<lparr>names = [], setHandlers = [], policiesAt = (\<lambda>applyPoint. [])\<rparr>"

text \<open>
  An element of \<open>route.settings.plugins.policies\<close>: a string, a function, or something
  of another type.
\<close>

datatype 'r directive = ByName string | Inline "'r policy" | Neither

text \<open>
  What a handler reads of the request: the policies of its route (\<open>None\<close> when
  \<open>Hoek.reach\<close> finds none), \<open>request.server.plugins.mrhorse.defaultApplyPoint\<close>, which
  \<open>register\<close> exposes after asserting that it is one of the six apply points, and the rest
  of the request, which is what a policy decides on.
\<close>

record 'r request =
  routePolicies :: "'r directive list option"
  serverDefaultApplyPoint :: apply_point
  details :: 'r

section \<open>The handlers\<close>

text \<open>The state of the \<open>reduce\<close> in a handler, the reply object with it.\<close>

record 'r reduction =
  tmpList :: "'r policy list"
  repliedWithError :: bool
  reduceReply :: reply

definition effectiveApplyPoint :: "'r policy \<Rightarrow> apply_point \<Rightarrow> js_value" where
  "effectiveApplyPoint routePolicy dflt =
     (if truthy (applyPoint routePolicy) then applyPoint routePolicy
      else JStr (applyPoint_name dflt))"

definition fail_with :: "js_error \<Rightarrow> 'r reduction \<Rightarrow> 'r reduction" where
  "fail_with e st = st\<lparr>repliedWithError := True, reduceReply := reply_with e (reduceReply st)\<rparr>"

definition reducer :: "'r data \<Rightarrow> apply_point \<Rightarrow> apply_point \<Rightarrow> 'r reduction \<Rightarrow> 'r directive \<Rightarrow> 'r reduction" where
  "reducer d ap dflt st routePolicy =
     (if repliedWithError st then st
      else case routePolicy of
        ByName n \<Rightarrow>
          if n \<notin> set (names d) then
            fail_with (Boom NotImplemented (JStr (''Missing policy: '' @ n))) st
          else (case map_of (policiesAt d ap) n of
                  Some p \<Rightarrow> st\<lparr>tmpList := tmpList st @ [p]\<rparr>
                | None \<Rightarrow> st)
      | Inline p \<Rightarrow>
          if \<not> hasValidApplyPoint p then
            fail_with (Boom BadImplementation (JStr
              (''Trying to use incorrect applyPoint for the dynamic policy: ''
                 @ js_toString (applyPoint p)))) st
          else if effectiveApplyPoint p dflt = JStr (applyPoint_name ap) then
            st\<lparr>tmpList := tmpList st @ [p]\<rparr>
          else st
      | Neither \<Rightarrow>
          fail_with (Boom BadImplementation
            (JStr ''Policy not specified by name or by function.'')) st)"

definition handlers :: "apply_point \<Rightarrow> 'r data \<Rightarrow> 'r request \<Rightarrow> reply \<Rightarrow> run" where
  "handlers ap d request r =
     (case routePolicies request of
        None \<Rightarrow> \<lparr>reply_after = reply_continue r, invoked = []\<rparr>
      | Some rps \<Rightarrow>
          (let st = foldl (reducer d ap (serverDefaultApplyPoint request))
                      \<lparr>tmpList = [], repliedWithError = False, reduceReply = r\<rparr> rps
           in if repliedWithError st then \<lparr>reply_after = reduceReply st, invoked = []\<rparr>
              else runPolicies (tmpList st) (details request) (reduceReply st)))"

section \<open>loadPolicies\<close>

text \<open>
  The server as the plugin uses it: the extension points it has registered through
  \<open>server.ext(applyPoint, handlers[applyPoint])\<close>, in the order of the calls, and the
  lines it has logged, each with its tag.
\<close>

record server =
  exts :: "apply_point list"
  logged :: "(string \<times> string) list"

definition server_ext :: "apply_point \<Rightarrow> server \<Rightarrow> server" where
  "server_ext ap srv = srv\<lparr>exts := exts srv @ [ap]\<rparr>"

definition server_log :: "string \<Rightarrow> string \<Rightarrow> server \<Rightarrow> server" where
  "server_log tag msg srv = srv\<lparr>logged := logged srv @ [(tag, msg)]\<rparr>"

text \<open>
  The policy directory: what \<open>Fs.readdirSync\<close> lists and what \<open>require\<close> returns for a
  file of it.
\<close>

record 'r directory =
  readdir :: "string list"
  require :: "string \<Rightarrow> 'r policy"

text \<open>
  The options: \<open>defaultApplyPoint\<close>, \<open>None\<close> when it is not given and else one of the
  six apply points, which is what \<open>register\<close> asserts before it loads a directory, and
  the policy directory.
\<close>

record 'r options =
  defaultApplyPoint :: "apply_point option"
  policyDirectory :: "'r directory"

text \<open>
  \<open>filename.match(/(.+)\.js$/)\<close>, group 1: the name must end in \<open>.js\<close>; the group is the
  longest stretch before that ending that holds no line terminator (which \<open>.\<close> does not
  match), and it must not be empty. Of the line terminators, line feed and carriage
  return are characters of \<^typ>\<open>char\<close>.
\<close>

definition lineTerminator :: "char \<Rightarrow> bool" where
  "lineTerminator c = (c = CHR 0x0A \<or> c = CHR 0x0D)"

definition js_match :: "string \<Rightarrow> string option" where
  "js_match filename =
     (case rev filename of
        c3 # c2 # c1 # stem \<Rightarrow>
          if c1 = CHR ''.'' \<and> c2 = CHR ''j'' \<and> c3 = CHR ''s'' then
            (let g = takeWhile (\<lambda>c. \<not> lineTerminator c) stem
             in if g = [] then None else Some (rev g))
          else None
      | _ \<Rightarrow> None)"

text \<open>\<open>data.setHandlers[applyPoint]\<close> as a condition.\<close>

definition handlerSet :: "(apply_point \<times> bool) list \<Rightarrow> apply_point \<Rightarrow> bool" where
  "handlerSet sh ap = (case map_of sh ap of Some b \<Rightarrow> b | None \<Rightarrow> False)"

text \<open>
  \<open>addPolicy\<close>, the iterator of the series over the files; the state is the server and
  the registry. Where it stores a policy, a truthy \<open>applyPoint\<close> is one of the six apply
  points, \<open>hasValidApplyPoint\<close> having been checked.
\<close>

definition addPolicy ::
  "apply_point \<Rightarrow> (string \<Rightarrow> 'r policy) \<Rightarrow> string \<Rightarrow> server \<times> 'r data
     \<Rightarrow> js_error completion \<times> (server \<times> 'r data)" where
  "addPolicy dflt req filename st =
     (case st of (srv, d) \<Rightarrow>
       (case js_match filename of
          None \<Rightarrow> (Called None, (srv, d))
        | Some n \<Rightarrow>
            if n \<in> set (names d) then
              (Called (Some (Error (''Trying to add a duplicate policy: '' @ n))),
               (server_log ''error'' (''Trying to add a duplicate policy: '' @ n) srv, d))
            else
              (let d1 = d\<lparr>names := names d @ [n]\<rparr>;
                   policy = req filename
               in if \<not> hasValidApplyPoint policy then
                    (Called (Some (Error (''Trying to set incorrect applyPoint for the policy: ''
                        @ js_toString (applyPoint policy)))),
                     (server_log ''error'' (''Trying to set incorrect applyPoint for the policy: ''
                        @ js_toString (applyPoint policy)) srv, d1))
                  else if applyPoint policy = JUndefined \<or> truthy (applyPoint policy) then
                    (let ap = (if truthy (applyPoint policy)
                               then (case applyPoints_indexOf (applyPoint policy) of
                                       Some a \<Rightarrow> a | None \<Rightarrow> dflt)
                               else dflt);
                         srv1 = server_log ''info'' (''Adding a new PRE policy called '' @ n) srv;
                         d2 = d1\<lparr>policiesAt := (policiesAt d1)
                                 (ap := AList.update n policy (policiesAt d1 ap))\<rparr>
                     in if \<not> handlerSet (setHandlers d2) ap then
                          (Called None,
                           (server_ext ap srv1,
                            d2\<lparr>setHandlers := AList.update ap True (setHandlers d2)\<rparr>))
                        else (Called None, (srv1, d2)))
                  else (Called None, (srv, d1)))))"

text \<open>\<open>options.defaultApplyPoint || 'onPreHandler'\<close>\<close>

definition defaultApplyPointOr :: "'r options \<Rightarrow> apply_point" where
  "defaultApplyPointOr opts =
     (case defaultApplyPoint opts of Some a \<Rightarrow> a | None \<Rightarrow> OnPreHandler)"

definition loadPolicies ::
  "server \<Rightarrow> 'r options \<Rightarrow> 'r data \<Rightarrow> js_error completion \<times> (server \<times> 'r data)" where
  "loadPolicies srv opts d =
     (let policyFiles = readdir (policyDirectory opts)
      in if policyFiles = [] then (Called None, (srv, d))
         else eachSeries policyFiles
                (addPolicy (defaultApplyPointOr opts) (require (policyDirectory opts))) (srv, d))"

section \<open>The host and the administration of the registry\<close>

text \<open>
  Host lifecycle contract: when a request reaches the event \<open>ev\<close>, the host calls the
  handlers registered for \<open>ev\<close> in the order of their registration, each with a reply
  object of its own, and goes on to the next one only after a \<open>reply.continue()\<close>. The
  handler the plugin registers for an apply point is \<open>handlers[applyPoint]\<close>.
\<close>

fun call_exts :: "apply_point list \<Rightarrow> apply_point \<Rightarrow> (apply_point \<Rightarrow> run) \<Rightarrow> run list" where
  "call_exts [] ev h = []"
| "call_exts (e # es) ev h =
     (if e = ev then
        (let res = h e
         in if sent (reply_after res) = [Continue] then res # call_exts es ev h else [res])
      else call_exts es ev h)"

definition stage :: "server \<Rightarrow> 'r data \<Rightarrow> 'r request \<Rightarrow> apply_point \<Rightarrow> run list" where
  "stage srv d request ev = call_exts (exts srv) ev (\<lambda>ap. handlers ap d request fresh_reply)"

text \<open>The policies invoked for a request at the event \<open>ev\<close>.\<close>

definition executedAt :: "server \<Rightarrow> 'r data \<Rightarrow> 'r request \<Rightarrow> apply_point \<Rightarrow> string list" where
  "executedAt srv d request ev = concat (map invoked (stage srv d request ev))"

text \<open>
  The two operations the plugin exposes, applied one after the other to a server and the
  registry: \<open>loadPolicies(server, options, next)\<close> and \<open>reset()\<close>.
\<close>

datatype 'r admin = Load "'r options" | Reset

fun administer :: "'r admin list \<Rightarrow> server \<times> 'r data \<Rightarrow> server \<times> 'r data" where
  "administer [] st = st"
| "administer (Load opts # ops) st = administer ops (snd (loadPolicies (fst st) opts (snd st)))"
| "administer (Reset # ops) st = administer ops (fst st, reset)"

section \<open>Signals that come more than once\<close>

text \<open>
  A policy is handed a callback and may call it again, and the response may be finalized
  by something other than \<open>runPolicies\<close>. What happens to a reply object over time is then
  a list of events: \<open>Signal i s\<close>, the policy at position \<open>i\<close> calls its callback with \<open>s\<close>,
  and \<open>Elsewhere\<close>, the response is finalized on another path, which sets
  \<open>reply._replied\<close>. A signal goes through the callback of \<open>checkPolicy\<close> to the \<open>next\<close>
  of the series. How the series answers a call of \<open>next\<close> is not fixed here: \<open>lib\<close> is any
  function from its own state, the position and the argument of \<open>next\<close> to the calls of
  the final callback it makes in answer (none, one or several) and its new state. Each
  such call runs \<open>allDone\<close> on the reply object.
\<close>

datatype event = Signal nat signal | Elsewhere

type_synonym 'l series = "'l \<Rightarrow> nat \<Rightarrow> js_error option \<Rightarrow> js_error option list \<times> 'l"

fun after_event :: "'l series \<Rightarrow> reply \<times> 'l \<Rightarrow> event \<Rightarrow> reply \<times> 'l" where
  "after_event lib (r, l) (Signal i s) =
     (case lib l i (signalled s) of
        (calls, l') \<Rightarrow> (foldl (\<lambda>r' e. allDone e r') r calls, l'))"
| "after_event lib (r, l) Elsewhere = (r\<lparr>replied := True\<rparr>, l)"

text \<open>
  One such series is that of \<open>Async.eachSeries\<close> itself, over a list of \<open>n\<close> items. It
  keeps one counter \<open>completed\<close> for the callbacks of all items, and the final callback,
  which it replaces by an empty function once it has passed an error to it (\<open>live\<close>
  tells that this has not happened). A call of \<open>next\<close> with an error calls the final
  callback with the error. A call without one counts one more item as completed; when
  the count has reached \<open>n\<close> it calls the final callback with nothing, otherwise it starts
  the next item. No callback is guarded against a second call, and the callback of
  \<open>checkPolicy\<close> has no such guard either, so every signal of a policy arrives here.
\<close>

record async_state =
  completed :: nat
  live :: bool

definition async_series :: "nat \<Rightarrow> async_state series" where
  "async_series n st i e =
     (case e of
        Some x \<Rightarrow> (if live st then [Some x] else [], st\<lparr>live := False\<rparr>)
      | None \<Rightarrow>
          (let st' = st\<lparr>completed := completed st + 1\<rparr>
           in (if n \<le> completed st' then (if live st' then [None] else []) else [], st')))"

section \<open>Notions the properties are stated with\<close>

text \<open>
  A policy continues on a request when it signals no error and a truthy \<open>canContinue\<close>;
  it denies with \<open>m\<close> when it signals no error, a falsy \<open>canContinue\<close> and the message \<open>m\<close>.
\<close>

definition continues :: "'r policy \<Rightarrow> 'r \<Rightarrow> bool" where
  "continues p request =
     (case body p request of
        Some s \<Rightarrow> \<not> truthy (err s) \<and> truthy (canContinue s)
      | None \<Rightarrow> False)"

definition denies :: "'r policy \<Rightarrow> 'r \<Rightarrow> js_value \<Rightarrow> bool" where
  "denies p request m =
     (case body p request of
        Some s \<Rightarrow> \<not> truthy (err s) \<and> \<not> truthy (canContinue s) \<and> message s = m
      | None \<Rightarrow> False)"

text \<open>The policies of a list up to and with the first one that does not continue.\<close>

fun upToFirstFailure :: "'r \<Rightarrow> 'r policy list \<Rightarrow> 'r policy list" where
  "upToFirstFailure request [] = []"
| "upToFirstFailure request (p # ps) =
     (if continues p request then p # upToFirstFailure request ps else [p])"

text \<open>
  The policy a route directive stands for at the apply point \<open>ap\<close>, when it targets \<open>ap\<close>:
  a registered name that \<open>data[ap]\<close> holds, or a function whose apply point, its own or
  the default, is \<open>ap\<close>.
\<close>

definition targets :: "'r data \<Rightarrow> apply_point \<Rightarrow> apply_point \<Rightarrow> 'r directive \<Rightarrow> 'r policy option" where
  "targets d dflt ap routePolicy =
     (case routePolicy of
        ByName n \<Rightarrow> if n \<in> set (names d) then map_of (policiesAt d ap) n else None
      | Inline p \<Rightarrow>
          if hasValidApplyPoint p \<and> effectiveApplyPoint p dflt = JStr (applyPoint_name ap)
          then Some p else None
      | Neither \<Rightarrow> None)"

text \<open>A directive that resolves without an error: a registered name, or a function with a valid apply point.\<close>

definition resolvable :: "'r data \<Rightarrow> 'r directive \<Rightarrow> bool" where
  "resolvable d routePolicy =
     (case routePolicy of
        ByName n \<Rightarrow> n \<in> set (names d)
      | Inline p \<Rightarrow> hasValidApplyPoint p
      | Neither \<Rightarrow> False)"

text \<open>
  The calls of the final callback that the series makes for a list of events, up to the
  first finalization on another path, and the outcome a call asks for.
\<close>

fun forwarded :: "'l series \<Rightarrow> 'l \<Rightarrow> event list \<Rightarrow> js_error option list" where
  "forwarded lib l [] = []"
| "forwarded lib l (Signal i s # evs) =
     (case lib l i (signalled s) of (calls, l') \<Rightarrow> calls @ forwarded lib l' evs)"
| "forwarded lib l (Elsewhere # evs) = []"

definition outcome_of :: "js_error option \<Rightarrow> outcome" where
  "outcome_of e = (case e of Some x \<Rightarrow> Respond x | None \<Rightarrow> Continue)"

text \<open>
  The events of a run in which every policy signals at most once, as \<open>runPolicies\<close> is
  modelled: the policy at position \<open>i\<close> signals, and the next one is started and signals
  only after a signal to continue.
\<close>

fun signals_in_series :: "'r \<Rightarrow> 'r policy list \<Rightarrow> nat \<Rightarrow> event list" where
  "signals_in_series request [] i = []"
| "signals_in_series request (p # ps) i =
     (case body p request of
        None \<Rightarrow> []
      | Some s \<Rightarrow>
          Signal i s # (if signalled s = None then signals_in_series request ps (Suc i) else []))"

text \<open>
  Three invariants of a server and a registry: the flag of an apply point is set exactly
  when \<open>data[applyPoint]\<close> holds a policy; a set flag means the handler is registered with
  the server; a handler registered with the server means a set flag, and no handler is
  registered twice.
\<close>

definition flagsMatch :: "'r data \<Rightarrow> bool" where
  "flagsMatch d = (\<forall>V. handlerSet (setHandlers d) V \<longleftrightarrow> policiesAt d V \<noteq> [])"

definition flaggedInstalled :: "server \<times> 'r data \<Rightarrow> bool" where
  "flaggedInstalled st = (\<forall>V. handlerSet (setHandlers (snd st)) V \<longrightarrow> V \<in> set (exts (fst st)))"

definition installedFlagged :: "server \<times> 'r data \<Rightarrow> bool" where
  "installedFlagged st =
     ((\<forall>V. V \<in> set (exts (fst st)) \<longrightarrow> handlerSet (setHandlers (snd st)) V) \<and> distinct (exts (fst st)))"

section \<open>Example policies, registries and directories\<close>

text \<open>
  Policies that decide at once and in the same way for every request: one that lets it
  pass and one that refuses it with a message.
\<close>

definition passes :: "string \<Rightarrow> js_value \<Rightarrow> unit policy" where
  "passes l a = \<lparr>label = l, applyPoint = a,
     body = (\<lambda>u. Some \<lparr>err = JNull, canContinue = JBool True, message = JUndefined\<rparr>)\<rparr>"

definition refuses :: "string \<Rightarrow> js_value \<Rightarrow> js_value \<Rightarrow> unit policy" where
  "refuses l a m = \<lparr>label = l, applyPoint = a,
     body = (\<lambda>u. Some \<lparr>err = JNull, canContinue = JBool False, message = m\<rparr>)\<rparr>"

text \<open>A server on which nothing has been registered or logged.\<close>

definition new_server :: server where
  "new_server = \<lparr>exts = [], logged = []\<rparr>"

text \<open>
  A directory of two policies for \<open>onPreHandler\<close>, the first by default and the second
  by its attribute, and the registry after loading it.
\<close>

definition twoPolicies :: "unit options" where
  "twoPolicies = \<lparr>defaultApplyPoint = None,
     policyDirectory = \<lparr>readdir = [''first.js'', ''second.js''],
        require = (\<lambda>f. if f = ''first.js'' then passes ''first'' JUndefined
                        else refuses ''second'' (JStr ''onPreHandler'') (JStr ''nope''))\<rparr>\<rparr>"

definition twoPoliciesLoaded :: "unit data" where
  "twoPoliciesLoaded =
     \<lparr>names = [''first'', ''second''], setHandlers = [(OnPreHandler, True)],
      policiesAt = (\<lambda>a. [])(OnPreHandler := [(''first'', passes ''first'' JUndefined),
          (''second'', refuses ''second'' (JStr ''onPreHandler'') (JStr ''nope''))])\<rparr>"

text \<open>
  A directory with a file that is no policy and, after a good policy, one whose
  \<open>applyPoint\<close> is no apply point.
\<close>

definition mixedDirectory :: "unit options" where
  "mixedDirectory = \<lparr>defaultApplyPoint = Some OnPostAuth,
     policyDirectory = \<lparr>readdir = [''good.js'', ''README.md'', ''bad.js'', ''late.js''],
        require = (\<lambda>f. if f = ''good.js'' then passes ''good'' JUndefined
                        else if f = ''bad.js'' then passes ''bad'' (JStr ''onSomething'')
                        else passes ''late'' JUndefined)\<rparr>\<rparr>"

section \<open>The executor\<close>

lemma checkPolicy_continues:
  "continues p request \<Longrightarrow> checkPolicy request p tr = (Called None, tr @ [label p])"
  by (auto simp: continues_def checkPolicy_def signalled_def split: option.splits)

lemma checkPolicy_denies:
  "denies p request m \<Longrightarrow>
   checkPolicy request p tr = (Called (Some (Boom Forbidden m)), tr @ [label p])"
  by (auto simp: denies_def checkPolicy_def signalled_def split: option.splits)

lemma checkPolicy_not_continues:
  "\<not> continues p request \<Longrightarrow>
   fst (checkPolicy request p tr) \<noteq> Called None \<and> snd (checkPolicy request p tr) = tr @ [label p]"
  by (auto simp: continues_def checkPolicy_def signalled_def split: option.splits)

lemma eachSeries_continues:
  "list_all (\<lambda>q. continues q request) pre \<Longrightarrow>
   eachSeries (pre @ rest) (checkPolicy request) tr =
   eachSeries rest (checkPolicy request) (tr @ map label pre)"
  by (induction pre arbitrary: tr) (simp_all add: checkPolicy_continues)

lemma eachSeries_invoked:
  "snd (eachSeries ps (checkPolicy request) tr) = tr @ map label (upToFirstFailure request ps)"
proof (induction ps arbitrary: tr)
  case Nil
  show ?case by simp
next
  case (Cons p ps)
  show ?case
  proof (cases "continues p request")
    case True
    then show ?thesis using Cons.IH by (simp add: checkPolicy_continues)
  next
    case False
    obtain c where c: "checkPolicy request p tr = (c, tr @ [label p])" and nc: "c \<noteq> Called None"
      using checkPolicy_not_continues[OF False, of tr] by (cases "checkPolicy request p tr") auto
    show ?thesis using False c nc
      by (cases c) (auto split: option.splits)
  qed
qed

lemma runPolicies_invoked:
  "invoked (runPolicies ps request r) = map label (upToFirstFailure request ps)"
  using eachSeries_invoked[of ps request "[]"]
  by (cases "eachSeries ps (checkPolicy request) []")
     (auto simp: runPolicies_def split: completion.splits)

lemma runPolicies_denied:
  assumes "list_all (\<lambda>q. continues q request) pre" and "denies p request m"
  shows "runPolicies (pre @ p # post) request r =
         \<lparr>reply_after = allDone (Some (Boom Forbidden m)) r, invoked = map label pre @ [label p]\<rparr>"
  by (simp add: runPolicies_def eachSeries_continues[OF assms(1)] checkPolicy_denies[OF assms(2)])

text \<open>
  \<^bold>\<open>C9.\<close> A policy that signals completion with no error and a falsy \<open>canContinue\<close>, which
  a call of its callback with no argument at all is, is treated as a denial: the callback
  of \<open>checkPolicy\<close> hands \<open>Boom.forbidden(message)\<close> to \<open>next\<close>, and, the policies before
  it having continued and the reply being open, the request is finalized with that
  forbidden outcome, whatever \<open>message\<close> is.
\<close>

theorem falsy_canContinue_is_forbidden:
  assumes "body p request = Some s" and "\<not> truthy (err s)" and "\<not> truthy (canContinue s)"
    and "list_all (\<lambda>q. continues q request) pre" and "\<not> replied r"
  shows "signalled s = Some (Boom Forbidden (message s)) \<and>
         reply_after (runPolicies (pre @ p # post) request r) =
           reply_with (Boom Forbidden (message s)) r"
proof -
  have "denies p request (message s)" using assms(1-3) by (simp add: denies_def)
  from runPolicies_denied[OF assms(4) this] assms(2,3,5) show ?thesis
    by (simp add: allDone_def signalled_def)
qed

text \<open>A policy that calls back with no argument: forbidden, with no message.\<close>

theorem falsy_canContinue_is_forbidden_witness:
  "reply_after (runPolicies
      [\<lparr>label = ''silent'', applyPoint = JUndefined,
        body = (\<lambda>u::unit. Some \<lparr>err = JUndefined, canContinue = JUndefined, message = JUndefined\<rparr>)\<rparr>]
      () fresh_reply)
   = \<lparr>replied = True, sent = [Respond (Boom Forbidden JUndefined)]\<rparr>"
  using falsy_canContinue_is_forbidden[of
      "\<lparr>label = ''silent'', applyPoint = JUndefined,
        body = (\<lambda>u::unit. Some \<lparr>err = JUndefined, canContinue = JUndefined, message = JUndefined\<rparr>)\<rparr>"
      "()" "\<lparr>err = JUndefined, canContinue = JUndefined, message = JUndefined\<rparr>" "[]" fresh_reply "[]"]
  by (simp add: fresh_reply_def reply_with_def)

subsection \<open>Repeated signals\<close>

lemma allDone_replied: "replied r \<Longrightarrow> foldl (\<lambda>r' e. allDone e r') r calls = r"
  by (induction calls) (simp_all add: allDone_def)

lemma allDone_first:
  "\<not> replied r \<Longrightarrow> allDone e r = \<lparr>replied = True, sent = sent r @ [outcome_of e]\<rparr>"
  by (cases e) (simp_all add: allDone_def reply_with_def reply_continue_def outcome_of_def)

lemma after_events_replied:
  "replied r \<Longrightarrow> sent (fst (foldl (after_event lib) (r, l) evs)) = sent r \<and>
                  replied (fst (foldl (after_event lib) (r, l) evs))"
proof (induction evs arbitrary: r l)
  case Nil
  then show ?case by simp
next
  case (Cons ev evs)
  show ?case
  proof (cases ev)
    case (Signal i s)
    obtain calls l' where lib: "lib l i (signalled s) = (calls, l')"
      by (cases "lib l i (signalled s)")
    show ?thesis
      using Cons.IH[OF Cons.prems, of l'] by (simp add: Signal lib allDone_replied[OF Cons.prems])
  next
    case Elsewhere
    have "replied (r\<lparr>replied := True\<rparr>)" by simp
    from Cons.IH[OF this, of l] show ?thesis by (simp add: Elsewhere)
  qed
qed

lemma after_events_open:
  "\<not> replied r \<Longrightarrow>
   sent (fst (foldl (after_event lib) (r, l) evs)) =
     sent r @ map outcome_of (take 1 (forwarded lib l evs))"
proof (induction evs arbitrary: l)
  case Nil
  then show ?case by simp
next
  case (Cons ev evs)
  show ?case
  proof (cases ev)
    case (Signal i s)
    obtain calls l' where lib: "lib l i (signalled s) = (calls, l')"
      by (cases "lib l i (signalled s)")
    show ?thesis
    proof (cases calls)
      case Nil
      then show ?thesis using Cons.IH[OF Cons.prems, of l'] by (simp add: Signal lib)
    next
      case (Cons e es)
      let ?r' = "\<lparr>replied = True, sent = sent r @ [outcome_of e]\<rparr>"
      have "replied ?r'" by simp
      from after_events_replied[OF this, of lib l' evs] show ?thesis
        using \<open>\<not> replied r\<close> by (simp add: Signal lib Cons allDone_first allDone_replied)
    qed
  next
    case Elsewhere
    have "replied (r\<lparr>replied := True\<rparr>)" by simp
    from after_events_replied[OF this, of lib l evs] show ?thesis
      by (simp add: Elsewhere)
  qed
qed

text \<open>
  With policies that signal at most once, the events under the series of
  \<open>Async.eachSeries\<close> leave the reply as \<open>runPolicies\<close> does.
\<close>

lemma eachSeries_checkPolicy_fst:
  "fst (eachSeries ps (checkPolicy request) tr) = fst (eachSeries ps (checkPolicy request) [])"
proof (induction ps arbitrary: tr)
  case Nil
  show ?case by simp
next
  case (Cons p ps)
  show ?case
    using Cons.IH[of "tr @ [label p]"] Cons.IH[of "[label p]"]
    by (auto simp: checkPolicy_def split: option.splits)
qed

lemma runPolicies_Nil: "reply_after (runPolicies [] request r) = allDone None r"
  by (simp add: runPolicies_def)

lemma runPolicies_Cons:
  "reply_after (runPolicies (p # ps) request r) =
     (case body p request of
        None \<Rightarrow> r
      | Some s \<Rightarrow> (case signalled s of
                    Some x \<Rightarrow> allDone (Some x) r
                  | None \<Rightarrow> reply_after (runPolicies ps request r)))"
  using eachSeries_checkPolicy_fst[of ps request "[label p]"]
  by (cases "eachSeries ps (checkPolicy request) [label p]";
      cases "eachSeries ps (checkPolicy request) []")
     (auto simp: runPolicies_def checkPolicy_def split: option.splits completion.splits)

lemma runPolicies_as_events:
  "ps \<noteq> [] \<Longrightarrow>
   fst (foldl (after_event (async_series (k + length ps)))
          (r, \<lparr>completed = k, live = True\<rparr>) (signals_in_series request ps k))
   = reply_after (runPolicies ps request r)"
proof (induction ps arbitrary: k)
  case Nil
  then show ?case by simp
next
  case (Cons p ps)
  show ?case
  proof (cases "body p request")
    case None
    then show ?thesis by (simp add: runPolicies_Cons)
  next
    case (Some s)
    show ?thesis
    proof (cases "signalled s")
      case (Some x)
      then show ?thesis using \<open>body p request = Some s\<close>
        by (simp add: runPolicies_Cons async_series_def)
    next
      case None
      show ?thesis
      proof (cases ps)
        case Nil
        then show ?thesis using None \<open>body p request = Some s\<close>
          by (simp add: runPolicies_Cons runPolicies_Nil async_series_def)
      next
        case (Cons q qs)
        then have ne: "ps \<noteq> []" by simp
        have "Suc k + length ps = k + length (p # ps)" by simp
        with Cons.IH[OF ne, of "Suc k"] show ?thesis using None \<open>body p request = Some s\<close> ne
          by (simp add: runPolicies_Cons async_series_def Let_def)
      qed
    qed
  qed
qed

text \<open>
  \<^bold>\<open>C2\<close>, as amended. Whatever the policies signal, however often, whatever the series
  makes of their signals, and whenever the response is finalized on another path,
  \<open>runPolicies\<close> emits at most one outcome on a reply object: the final callback looks at
  \<open>reply._replied\<close> before it emits. On a reply that is already finalized it emits
  nothing. On an open one, the outcome is that of the first call of the final callback,
  when that comes before any finalization elsewhere, and every later call of the final
  callback is ignored. This is said of the calls of the final callback, not of the
  signals of the policies: a repeated signal is passed on to the series like a first
  one, and which signal leads to the first call of the final callback is up to the
  series.
\<close>

theorem at_most_one_outcome:
  "sent (fst (foldl (after_event lib) (r, l) evs)) =
     sent r @ (if replied r then [] else map outcome_of (take 1 (forwarded lib l evs))) \<and>
   length (sent (fst (foldl (after_event lib) (r, l) evs))) \<le> length (sent r) + 1"
proof (cases "replied r")
  case True
  then show ?thesis using after_events_replied[OF True, of lib l evs] by simp
next
  case False
  then show ?thesis using after_events_open[OF False, of lib l evs] by simp
qed

text \<open>
  A route with a single policy that signals twice, first to continue and then to deny,
  under the series of \<open>Async.eachSeries\<close>: the request continues; the denial reaches the
  final callback, which finds the reply finalized and emits nothing.
\<close>

theorem at_most_one_outcome_witness:
  "sent (fst (foldl (after_event (async_series 1)) (fresh_reply, \<lparr>completed = 0, live = True\<rparr>)
      [Signal 0 \<lparr>err = JNull, canContinue = JBool True, message = JUndefined\<rparr>,
       Signal 0 \<lparr>err = JNull, canContinue = JBool False, message = JStr ''nope''\<rparr>]))
   = [Continue]"
  using at_most_one_outcome[of "async_series 1" fresh_reply "\<lparr>completed = 0, live = True\<rparr>"
      "[Signal 0 \<lparr>err = JNull, canContinue = JBool True, message = JUndefined\<rparr>,
       Signal 0 \<lparr>err = JNull, canContinue = JBool False, message = JStr ''nope''\<rparr>]"]
  by (simp add: fresh_reply_def signalled_def outcome_of_def async_series_def Let_def)

text \<open>
  A route with two policies of which the first signals twice while the second has not
  signalled, under the series of \<open>Async.eachSeries\<close>. After the first signal, to
  continue, nothing is emitted yet: the series has started the second policy. A second
  signal to continue then completes the series, and the request continues though the
  second policy never signalled; a second signal to deny instead finalizes the request
  as forbidden. In both runs it is the later signal that determines the outcome.
\<close>

theorem later_signal_decides_counterexample:
  "sent (fst (foldl (after_event (async_series 2)) (fresh_reply, \<lparr>completed = 0, live = True\<rparr>)
      [Signal 0 \<lparr>err = JNull, canContinue = JBool True, message = JUndefined\<rparr>])) = [] \<and>
   sent (fst (foldl (after_event (async_series 2)) (fresh_reply, \<lparr>completed = 0, live = True\<rparr>)
      [Signal 0 \<lparr>err = JNull, canContinue = JBool True, message = JUndefined\<rparr>,
       Signal 0 \<lparr>err = JNull, canContinue = JBool True, message = JUndefined\<rparr>])) = [Continue] \<and>
   sent (fst (foldl (after_event (async_series 2)) (fresh_reply, \<lparr>completed = 0, live = True\<rparr>)
      [Signal 0 \<lparr>err = JNull, canContinue = JBool True, message = JUndefined\<rparr>,
       Signal 0 \<lparr>err = JNull, canContinue = JBool False, message = JStr ''nope''\<rparr>]))
     = [Respond (Boom Forbidden (JStr ''nope''))]"
  by (simp add: async_series_def signalled_def allDone_def fresh_reply_def reply_with_def
      reply_continue_def Let_def)

section \<open>The handlers\<close>

lemma foldl_reducer_failed:
  "repliedWithError st \<Longrightarrow> foldl (reducer d ap dflt) st rps = st"
  by (induction rps) (simp_all add: reducer_def)

lemma foldl_reducer_targets:
  "\<not> repliedWithError st \<Longrightarrow> map (targets d dflt ap) rps = map Some ps \<Longrightarrow>
   foldl (reducer d ap dflt) st rps = st\<lparr>tmpList := tmpList st @ ps\<rparr>"
proof (induction rps arbitrary: st ps)
  case Nil
  then show ?case by simp
next
  case (Cons rp rps)
  then obtain q qs where ps: "ps = q # qs" and q: "targets d dflt ap rp = Some q"
    and qs: "map (targets d dflt ap) rps = map Some qs"
    by (cases ps) auto
  from q Cons.prems(1) have step: "reducer d ap dflt st rp = st\<lparr>tmpList := tmpList st @ [q]\<rparr>"
    by (auto simp: targets_def reducer_def split: directive.splits if_splits)
  have "\<not> repliedWithError (st\<lparr>tmpList := tmpList st @ [q]\<rparr>)" using Cons.prems(1) by simp
  from Cons.IH[OF this qs] show ?case by (simp add: step ps)
qed

text \<open>
  \<^bold>\<open>C1.\<close> When all the directives of a route target the apply point of the handler, the
  policies are invoked one after the other in the declared order, up to and with the first
  one that does not continue, and no further. If one of them denies after all before it
  have continued, none after it is invoked and the request is finalized with the
  forbidden outcome that carries the message of the one that denied. With three policies
  and a denial at the second: the first has continued, the third is never invoked.
\<close>

theorem handlers_ordered_fail_fast:
  assumes "routePolicies request = Some rps"
    and "map (targets d (serverDefaultApplyPoint request) ap) rps = map Some (pre @ p # post)"
  shows "invoked (handlers ap d request r) =
           map label (upToFirstFailure (details request) (pre @ p # post)) \<and>
         (list_all (\<lambda>q. continues q (details request)) pre \<longrightarrow>
          denies p (details request) m \<longrightarrow> \<not> replied r \<longrightarrow>
          handlers ap d request r =
            \<lparr>reply_after = reply_with (Boom Forbidden m) r,
             invoked = map label pre @ [label p]\<rparr>)"
proof -
  let ?init = "\<lparr>tmpList = [], repliedWithError = False, reduceReply = r\<rparr>"
  have "foldl (reducer d ap (serverDefaultApplyPoint request)) ?init rps =
        ?init\<lparr>tmpList := tmpList ?init @ (pre @ p # post)\<rparr>"
    by (rule foldl_reducer_targets[OF _ assms(2)]) simp
  then have h: "handlers ap d request r = runPolicies (pre @ p # post) (details request) r"
    by (simp add: handlers_def assms(1))
  show ?thesis
    unfolding h by (simp add: runPolicies_invoked runPolicies_denied allDone_def)
qed

text \<open>
  Two stored policies and a function on one route, all for \<open>onPreHandler\<close>: the first
  passes, the second refuses with \<open>nope\<close>, the third is not invoked.
\<close>

theorem handlers_ordered_fail_fast_witness:
  "handlers OnPreHandler twoPoliciesLoaded
     \<lparr>routePolicies = Some [ByName ''first'', ByName ''second'', Inline (passes ''third'' JUndefined)],
      serverDefaultApplyPoint = OnPreHandler, details = ()\<rparr> fresh_reply
   = \<lparr>reply_after = \<lparr>replied = True, sent = [Respond (Boom Forbidden (JStr ''nope''))]\<rparr>,
      invoked = [''first'', ''second'']\<rparr>"
  using handlers_ordered_fail_fast[of
      "\<lparr>routePolicies = Some [ByName ''first'', ByName ''second'', Inline (passes ''third'' JUndefined)],
      serverDefaultApplyPoint = OnPreHandler, details = ()\<rparr>"
      "[ByName ''first'', ByName ''second'', Inline (passes ''third'' JUndefined)]"
      twoPoliciesLoaded OnPreHandler "[passes ''first'' JUndefined]"
      "refuses ''second'' (JStr ''onPreHandler'') (JStr ''nope'')" "[passes ''third'' JUndefined]"
      fresh_reply "JStr ''nope''"]
  by (simp add: twoPoliciesLoaded_def targets_def hasValidApplyPoint_def effectiveApplyPoint_def
      passes_def refuses_def continues_def denies_def fresh_reply_def reply_with_def)

subsection \<open>Names that are not registered\<close>

lemma reducer_resolvable:
  "\<not> repliedWithError st \<Longrightarrow> resolvable d rp \<Longrightarrow>
   \<not> repliedWithError (reducer d ap dflt st rp) \<and>
   reduceReply (reducer d ap dflt st rp) = reduceReply st"
  by (auto simp: resolvable_def reducer_def split: directive.splits option.splits)

lemma foldl_reducer_resolvable:
  "\<not> repliedWithError st \<Longrightarrow> list_all (resolvable d) rps \<Longrightarrow>
   \<not> repliedWithError (foldl (reducer d ap dflt) st rps) \<and>
   reduceReply (foldl (reducer d ap dflt) st rps) = reduceReply st"
proof (induction rps arbitrary: st)
  case Nil
  then show ?case by simp
next
  case (Cons rp rps)
  then show ?case using reducer_resolvable[of st d rp ap dflt] by simp
qed

lemma reducer_missing:
  "\<not> repliedWithError st \<Longrightarrow> n \<notin> set (names d) \<Longrightarrow>
   reducer d ap dflt st (ByName n) =
     fail_with (Boom NotImplemented (JStr (''Missing policy: '' @ n))) st"
  by (simp add: reducer_def)

lemma reducer_cases:
  "\<not> repliedWithError st \<Longrightarrow>
   (\<not> repliedWithError (reducer d ap dflt st rp) \<and>
      reduceReply (reducer d ap dflt st rp) = reduceReply st)
   \<or> (\<exists>e. reducer d ap dflt st rp = fail_with e st)"
  by (auto simp: reducer_def split: directive.splits option.splits)

lemma foldl_reducer_cases:
  "\<not> repliedWithError st \<Longrightarrow>
   (\<not> repliedWithError (foldl (reducer d ap dflt) st rps) \<and>
      reduceReply (foldl (reducer d ap dflt) st rps) = reduceReply st)
   \<or> (\<exists>e. repliedWithError (foldl (reducer d ap dflt) st rps) \<and>
           reduceReply (foldl (reducer d ap dflt) st rps) = reply_with e (reduceReply st))"
proof (induction rps arbitrary: st)
  case Nil
  then show ?case by simp
next
  case (Cons rp rps)
  from reducer_cases[OF Cons.prems, of d ap dflt rp] show ?case
  proof
    assume a: "\<not> repliedWithError (reducer d ap dflt st rp) \<and>
               reduceReply (reducer d ap dflt st rp) = reduceReply st"
    from Cons.IH[of "reducer d ap dflt st rp"] a show ?thesis by simp
  next
    assume "\<exists>e. reducer d ap dflt st rp = fail_with e st"
    then obtain e where e: "reducer d ap dflt st rp = fail_with e st" ..
    have "repliedWithError (fail_with e st)" by (simp add: fail_with_def)
    from foldl_reducer_failed[OF this] e show ?thesis by (auto simp: fail_with_def)
  qed
qed

text \<open>
  \<^bold>\<open>C5\<close>, as amended. When a handler resolves a route that names a policy that is not
  registered, resolution fails: the handler replies with an error and invokes no policy
  of the route. The error is that of the first directive that fails. It is the
  not-implemented error \<open>Missing policy: n\<close> for the missing name \<open>n\<close> when every directive
  before \<open>n\<close> resolves, that is, is a registered name or a function with a valid apply
  point.
\<close>

theorem missing_policy_fails_resolution:
  assumes "routePolicies request = Some (pre @ ByName n # post)" and "n \<notin> set (names d)"
  shows "invoked (handlers ap d request r) = [] \<and>
         (\<exists>e. reply_after (handlers ap d request r) = reply_with e r) \<and>
         (list_all (resolvable d) pre \<longrightarrow>
            handlers ap d request r =
              \<lparr>reply_after = reply_with (Boom NotImplemented (JStr (''Missing policy: '' @ n))) r,
               invoked = []\<rparr>)"
proof -
  let ?dflt = "serverDefaultApplyPoint request"
  let ?init = "\<lparr>tmpList = [], repliedWithError = False, reduceReply = r\<rparr>"
  let ?mid = "foldl (reducer d ap ?dflt) ?init pre"
  let ?fin = "foldl (reducer d ap ?dflt) ?init (pre @ ByName n # post)"
  have fin: "?fin = foldl (reducer d ap ?dflt) (reducer d ap ?dflt ?mid (ByName n)) post" by simp
  have failed: "repliedWithError ?fin"
  proof (cases "repliedWithError ?mid")
    case True
    then show ?thesis by (simp add: reducer_def foldl_reducer_failed)
  next
    case False
    have "repliedWithError (reducer d ap ?dflt ?mid (ByName n))"
      by (simp add: reducer_missing[OF False assms(2)] fail_with_def)
    then show ?thesis by (simp add: foldl_reducer_failed)
  qed
  have h: "handlers ap d request r = \<lparr>reply_after = reduceReply ?fin, invoked = []\<rparr>"
    using failed by (simp add: handlers_def assms(1) Let_def)
  have ex: "\<exists>e. reduceReply ?fin = reply_with e r"
    using foldl_reducer_cases[of ?init d ap ?dflt "pre @ ByName n # post"] failed by auto
  have first: "reduceReply ?fin = reply_with (Boom NotImplemented (JStr (''Missing policy: '' @ n))) r"
    if "list_all (resolvable d) pre"
  proof -
    from foldl_reducer_resolvable[of ?init d pre ap ?dflt] that
    have m: "\<not> repliedWithError ?mid" "reduceReply ?mid = r" by simp_all
    have "reducer d ap ?dflt ?mid (ByName n) =
            fail_with (Boom NotImplemented (JStr (''Missing policy: '' @ n))) ?mid"
      by (rule reducer_missing[OF m(1) assms(2)])
    moreover have "repliedWithError (fail_with (Boom NotImplemented (JStr (''Missing policy: '' @ n))) ?mid)"
      by (simp add: fail_with_def)
    ultimately show ?thesis unfolding fin by (simp add: foldl_reducer_failed fail_with_def m(2))
  qed
  show ?thesis using h ex first by simp
qed

text \<open>A route that names \<open>third\<close> between two registered policies: neither of them runs.\<close>

theorem missing_policy_fails_resolution_witness:
  "handlers OnPreHandler twoPoliciesLoaded
     \<lparr>routePolicies = Some [ByName ''first'', ByName ''third'', ByName ''second''],
      serverDefaultApplyPoint = OnPreHandler, details = ()\<rparr> fresh_reply
   = \<lparr>reply_after = \<lparr>replied = True,
         sent = [Respond (Boom NotImplemented (JStr ''Missing policy: third''))]\<rparr>,
      invoked = []\<rparr>"
  using missing_policy_fails_resolution[of
      "\<lparr>routePolicies = Some [ByName ''first'', ByName ''third'', ByName ''second''],
      serverDefaultApplyPoint = OnPreHandler, details = ()\<rparr>"
      "[ByName ''first'']" "''third''" "[ByName ''second'']" twoPoliciesLoaded OnPreHandler fresh_reply]
  by (simp add: twoPoliciesLoaded_def resolvable_def fresh_reply_def reply_with_def)

text \<open>
  A route that names the unregistered \<open>third\<close> after a function whose apply point is no
  apply point: the outcome is the error of the function, not the missing policy.
\<close>

theorem earlier_failure_wins_counterexample:
  "sent (reply_after (handlers OnPreHandler twoPoliciesLoaded
     \<lparr>routePolicies = Some [Inline (passes ''dyn'' (JStr ''onSomething'')), ByName ''third''],
      serverDefaultApplyPoint = OnPreHandler, details = ()\<rparr> fresh_reply))
   = [Respond (Boom BadImplementation
        (JStr ''Trying to use incorrect applyPoint for the dynamic policy: onSomething''))]"
  by (simp add: handlers_def reducer_def fail_with_def twoPoliciesLoaded_def hasValidApplyPoint_def
      passes_def applyPoints_def fresh_reply_def reply_with_def)

subsection \<open>Functions with no apply point of their own\<close>

lemma applyPoint_name_inj: "applyPoint_name a = applyPoint_name b \<Longrightarrow> a = b"
  by (cases a; cases b) simp_all

lemma set_call_exts: "set (call_exts es ev h) = (if ev \<in> set es then {h ev} else {})"
  by (induction es) (auto simp: Let_def)

lemma call_exts_once: "count_list es ev = 1 \<Longrightarrow> call_exts es ev h = [h ev]"
proof (induction es)
  case Nil
  then show ?case by simp
next
  case (Cons e es)
  show ?case
  proof (cases "e = ev")
    case True
    with Cons.prems have "count_list es ev = 0" by simp
    then have "ev \<notin> set es" by (simp add: count_list_0_iff)
    then have "call_exts es ev h = []" using set_call_exts[of es ev h] by simp
    then show ?thesis using True by (simp add: Let_def)
  next
    case False
    then show ?thesis using Cons by simp
  qed
qed

lemma handlers_inline_undefined:
  assumes "applyPoint p = JUndefined" and "routePolicies request = Some [Inline p]"
  shows "invoked (handlers ev d request r) =
           (if ev = serverDefaultApplyPoint request then [label p] else [])"
  using assms applyPoint_name_inj[of "serverDefaultApplyPoint request" ev]
  by (auto simp: handlers_def reducer_def hasValidApplyPoint_def effectiveApplyPoint_def
        runPolicies_invoked Let_def)

text \<open>
  \<^bold>\<open>C3\<close>, as amended. A function with no \<open>applyPoint\<close> attribute that is the only policy
  of a route, the default apply point being \<open>onPostAuth\<close>, is invoked at no stage other
  than \<open>onPostAuth\<close>, and at \<open>onPostAuth\<close> exactly when the handler for \<open>onPostAuth\<close> is
  registered with the server, which \<open>loadPolicies\<close> does when it stores a policy for that
  apply point. When the handler is registered once, the function is invoked once for
  every request to the route; when it is not registered, the function is never invoked.
\<close>

theorem inline_policy_runs_at_default_stage:
  assumes "applyPoint p = JUndefined" and "routePolicies request = Some [Inline p]"
    and "serverDefaultApplyPoint request = OnPostAuth"
  shows "set (executedAt srv d request ev) =
           (if ev = OnPostAuth \<and> OnPostAuth \<in> set (exts srv) then {label p} else {}) \<and>
         (count_list (exts srv) OnPostAuth = 1 \<longrightarrow>
            executedAt srv d request OnPostAuth = [label p])"
proof -
  have inv: "invoked (handlers a d request fresh_reply) = (if a = OnPostAuth then [label p] else [])"
    for a
    using handlers_inline_undefined[OF assms(1,2)] assms(3) by simp
  have "set (executedAt srv d request ev) =
          (if ev = OnPostAuth \<and> OnPostAuth \<in> set (exts srv) then {label p} else {})"
    by (simp add: executedAt_def stage_def set_call_exts inv)
  moreover have "executedAt srv d request OnPostAuth = [label p]"
    if "count_list (exts srv) OnPostAuth = 1"
    by (simp add: executedAt_def stage_def call_exts_once[OF that] inv)
  ultimately show ?thesis by simp
qed

text \<open>
  With handlers registered for \<open>onPreHandler\<close> and \<open>onPostAuth\<close>, the function runs at
  \<open>onPostAuth\<close>, the third of the six stages, and at no other.
\<close>

theorem inline_policy_runs_at_default_stage_witness:
  "map (executedAt \<lparr>exts = [OnPreHandler, OnPostAuth], logged = []\<rparr> reset
          \<lparr>routePolicies = Some [Inline (passes ''dyn'' JUndefined)],
           serverDefaultApplyPoint = OnPostAuth, details = ()\<rparr>) applyPoints
   = [[], [], [''dyn''], [], [], []]"
proof -
  let ?srv = "\<lparr>exts = [OnPreHandler, OnPostAuth], logged = []\<rparr>"
  let ?rq = "\<lparr>routePolicies = Some [Inline (passes ''dyn'' JUndefined)],
           serverDefaultApplyPoint = OnPostAuth, details = ()\<rparr>"
  have a: "applyPoint (passes ''dyn'' JUndefined) = JUndefined" by (simp add: passes_def)
  have b: "routePolicies ?rq = Some [Inline (passes ''dyn'' JUndefined)]" by simp
  have c: "serverDefaultApplyPoint ?rq = OnPostAuth" by simp
  note t = inline_policy_runs_at_default_stage[OF a b c, of ?srv reset]
  show ?thesis
    using t[of OnRequest] t[of OnPreAuth] t[of OnPostAuth] t[of OnPreHandler] t[of OnPostHandler]
      t[of OnPreResponse]
    by (simp add: applyPoints_def passes_def)
qed

lemmas eval_defs = loadPolicies_def new_server_def reset_def addPolicy_def js_match_def
  lineTerminator_def passes_def refuses_def hasValidApplyPoint_def applyPoints_def handlerSet_def
  server_ext_def server_log_def defaultApplyPointOr_def Let_def

text \<open>
  After loading a directory whose only policy is stored for \<open>onPreHandler\<close>, the default
  apply point being \<open>onPostAuth\<close>, no handler is registered for \<open>onPostAuth\<close>: a function
  with no apply point of its own on a route is not invoked at \<open>onPostAuth\<close>.
\<close>

theorem inline_policy_never_runs_counterexample:
  "(case loadPolicies new_server
      \<lparr>defaultApplyPoint = Some OnPostAuth,
       policyDirectory = \<lparr>readdir = [''stored.js''],
                          require = (\<lambda>f. passes ''stored'' (JStr ''onPreHandler''))\<rparr>\<rparr> reset of
      (c, srv, d) \<Rightarrow>
        c = Called None \<and>
        executedAt srv d \<lparr>routePolicies = Some [Inline (passes ''dyn'' JUndefined)],
                          serverDefaultApplyPoint = OnPostAuth, details = ()\<rparr> OnPostAuth = [])"
  by (simp add: eval_defs executedAt_def stage_def)

section \<open>Loading policies\<close>

text \<open>
  \<^bold>\<open>C6.\<close> Adding a file whose policy name is already among the names fails with the
  error \<open>Trying to add a duplicate policy\<close> and leaves the registry as it was: the names,
  the policies of every apply point and the \<open>setHandlers\<close> flags are unchanged, and no
  handler is registered with the server; only the error is logged.
\<close>

theorem duplicate_name_rejected:
  assumes "js_match filename = Some n" and "n \<in> set (names d)"
  shows "addPolicy dflt req filename (srv, d) =
           (Called (Some (Error (''Trying to add a duplicate policy: '' @ n))),
            (server_log ''error'' (''Trying to add a duplicate policy: '' @ n) srv, d))
         \<and> exts (server_log ''error'' (''Trying to add a duplicate policy: '' @ n) srv) = exts srv"
  using assms by (simp add: addPolicy_def server_log_def)

text \<open>A second \<open>first.js\<close> for a registry that holds \<open>first\<close>.\<close>

theorem duplicate_name_rejected_witness:
  "addPolicy OnPreHandler (\<lambda>f. passes ''again'' JUndefined) ''first.js'' (new_server, twoPoliciesLoaded)
   = (Called (Some (Error ''Trying to add a duplicate policy: first'')),
      (\<lparr>exts = [], logged = [(''error'', ''Trying to add a duplicate policy: first'')]\<rparr>,
       twoPoliciesLoaded))"
  using duplicate_name_rejected[of "''first.js''" "''first''" twoPoliciesLoaded OnPreHandler
      "\<lambda>f. passes ''again'' JUndefined" new_server]
  by (simp add: js_match_def lineTerminator_def twoPoliciesLoaded_def new_server_def server_log_def)

text \<open>
  \<^bold>\<open>C8.\<close> Adding a policy whose \<open>applyPoint\<close> attribute is set to a falsy value (one that
  is not \<open>undefined\<close>) under a new name pushes the name and does nothing else: no
  \<open>data[applyPoint]\<close> and no \<open>setHandlers\<close> flag changes, no handler is registered with the
  server, and there is no error. The name then counts as registered.
\<close>

theorem falsy_applyPoint_reserves_name:
  assumes "js_match filename = Some n" and "n \<notin> set (names d)"
    and "applyPoint (req filename) \<noteq> JUndefined" and "\<not> truthy (applyPoint (req filename))"
  shows "addPolicy dflt req filename (srv, d) = (Called None, (srv, d\<lparr>names := names d @ [n]\<rparr>))"
  using assms by (simp add: addPolicy_def hasValidApplyPoint_def Let_def)

text \<open>A policy \<open>off.js\<close> with \<open>applyPoint = false\<close>.\<close>

theorem falsy_applyPoint_reserves_name_witness:
  "addPolicy OnPreHandler (\<lambda>f. passes ''off'' (JBool False)) ''off.js'' (new_server, twoPoliciesLoaded)
   = (Called None, (new_server, twoPoliciesLoaded\<lparr>names := [''first'', ''second'', ''off'']\<rparr>))"
  using falsy_applyPoint_reserves_name[of "''off.js''" "''off''" twoPoliciesLoaded
      "\<lambda>f. passes ''off'' (JBool False)" OnPreHandler new_server]
  by (simp add: js_match_def lineTerminator_def twoPoliciesLoaded_def passes_def)

subsection \<open>Files that are not policies\<close>

lemma js_match_suffix: "js_match filename = Some n \<Longrightarrow> suffix ''.js'' filename"
proof -
  assume a: "js_match filename = Some n"
  then obtain stem where "rev filename = CHR ''s'' # CHR ''j'' # CHR ''.'' # stem"
    by (auto simp: js_match_def split: list.splits if_splits)
  then have "rev (rev filename) = rev (CHR ''s'' # CHR ''j'' # CHR ''.'' # stem)" by simp
  then have "filename = rev stem @ ''.js''" by simp
  then show ?thesis by (simp add: suffix_def)
qed

lemma addPolicy_not_js:
  "\<not> suffix ''.js'' filename \<Longrightarrow> addPolicy dflt req filename st = (Called None, st)"
  using js_match_suffix[of filename]
  by (cases "js_match filename") (auto simp: addPolicy_def split: prod.splits)

lemma eachSeries_skip:
  assumes "\<And>s. iterator x s = (Called None, s)"
  shows "eachSeries (pre @ x # post) iterator s = eachSeries (pre @ post) iterator s"
  by (induction pre arbitrary: s)
     (auto simp: assms split: prod.splits completion.splits option.splits)

text \<open>
  \<^bold>\<open>C10.\<close> A file of the directory whose name does not end in \<open>.js\<close> is skipped in
  silence: adding it changes neither the registry nor the server, not even the log, and
  reports no error, and loading the directory gives what loading it without that file
  gives, result, registry and server.
\<close>

theorem other_files_skipped:
  assumes "\<not> suffix ''.js'' filename" and "readdir (policyDirectory opts) = pre @ filename # post"
  shows "addPolicy dflt req filename st = (Called None, st) \<and>
         loadPolicies srv opts d =
         loadPolicies srv (opts\<lparr>policyDirectory := (policyDirectory opts)\<lparr>readdir := pre @ post\<rparr>\<rparr>) d"
proof -
  let ?it = "addPolicy (defaultApplyPointOr opts) (require (policyDirectory opts))"
  have skip: "eachSeries (pre @ filename # post) ?it (srv, d) = eachSeries (pre @ post) ?it (srv, d)"
    by (rule eachSeries_skip) (rule addPolicy_not_js[OF assms(1)])
  have empty: "eachSeries [] ?it (srv, d) = (Called None, (srv, d))" by simp
  show ?thesis
    using skip empty
    by (auto simp: loadPolicies_def assms(2) addPolicy_not_js[OF assms(1)] defaultApplyPointOr_def Let_def)
qed

text \<open>The \<open>README.md\<close> of the mixed directory.\<close>

theorem other_files_skipped_witness:
  "addPolicy OnPostAuth (require (policyDirectory mixedDirectory)) ''README.md'' (new_server, reset)
     = (Called None, (new_server, reset)) \<and>
   loadPolicies new_server mixedDirectory reset =
   loadPolicies new_server
     (mixedDirectory\<lparr>policyDirectory :=
        (policyDirectory mixedDirectory)\<lparr>readdir := [''good.js'', ''bad.js'', ''late.js'']\<rparr>\<rparr>) reset"
  using other_files_skipped[of "''README.md''" mixedDirectory "[''good.js'']" "[''bad.js'', ''late.js'']"
      OnPostAuth "require (policyDirectory mixedDirectory)" "(new_server, reset)" new_server reset]
  by (simp add: mixedDirectory_def suffix_def)

subsection \<open>The first failure ends the loading\<close>

lemma eachSeries_append:
  "eachSeries pre iterator s = (Called None, s1) \<Longrightarrow>
   eachSeries (pre @ rest) iterator s = eachSeries rest iterator s1"
proof (induction pre arbitrary: s)
  case Nil
  then show ?case by simp
next
  case (Cons x pre)
  obtain c s' where it: "iterator x s = (c, s')" by (cases "iterator x s")
  with Cons.prems have c: "c = Called None" and rest: "eachSeries pre iterator s' = (Called None, s1)"
    by (cases c; auto split: option.splits)+
  from Cons.IH[OF rest] show ?case using it c by simp
qed

lemma eachSeries_fails:
  "fst (iterator x s) = Called (Some e) \<Longrightarrow> eachSeries (x # rest) iterator s = iterator x s"
  by (cases "iterator x s") auto

lemma addPolicy_error:
  assumes "fst (addPolicy dflt req filename (srv, d)) = Called (Some e)"
  shows "\<exists>n. js_match filename = Some n \<and>
           ((n \<in> set (names d) \<and> e = Error (''Trying to add a duplicate policy: '' @ n) \<and>
             snd (addPolicy dflt req filename (srv, d)) =
               (server_log ''error'' (''Trying to add a duplicate policy: '' @ n) srv, d))
          \<or> (n \<notin> set (names d) \<and> \<not> hasValidApplyPoint (req filename) \<and>
              e = Error (''Trying to set incorrect applyPoint for the policy: ''
                    @ js_toString (applyPoint (req filename))) \<and>
              snd (addPolicy dflt req filename (srv, d)) =
                (server_log ''error'' (''Trying to set incorrect applyPoint for the policy: ''
                    @ js_toString (applyPoint (req filename))) srv,
                 d\<lparr>names := names d @ [n]\<rparr>)))"
  using assms by (auto simp: addPolicy_def Let_def split: option.splits if_splits)

text \<open>
  \<^bold>\<open>C7.\<close> \<open>loadPolicies\<close> adds the files of the directory one after the other and stops
  at the first that fails. When the files before \<open>filename\<close> have been added without an
  error and adding \<open>filename\<close> fails, the load ends there with that error, which is the
  error of a duplicate name or of an incorrect apply point; no file after it is looked
  at; and what the files before it registered stays: the handlers registered with the
  server, the policies of every apply point and the flags are those reached before the
  failing file, and the names reached before it are still the first names.
\<close>

theorem bulk_load_stops_at_first_failure:
  assumes "readdir (policyDirectory opts) = pre @ filename # post"
    and "eachSeries pre (addPolicy (defaultApplyPointOr opts) (require (policyDirectory opts))) (srv, d)
           = (Called None, (srv1, d1))"
    and "fst (addPolicy (defaultApplyPointOr opts) (require (policyDirectory opts)) filename (srv1, d1))
           = Called (Some e)"
  shows "loadPolicies srv opts d =
           addPolicy (defaultApplyPointOr opts) (require (policyDirectory opts)) filename (srv1, d1) \<and>
         (\<exists>srv2 d2. loadPolicies srv opts d = (Called (Some e), (srv2, d2)) \<and>
            exts srv2 = exts srv1 \<and> policiesAt d2 = policiesAt d1 \<and>
            setHandlers d2 = setHandlers d1 \<and> prefix (names d1) (names d2)) \<and>
         (\<exists>n. js_match filename = Some n \<and>
            (e = Error (''Trying to add a duplicate policy: '' @ n) \<or>
             e = Error (''Trying to set incorrect applyPoint for the policy: ''
                   @ js_toString (applyPoint (require (policyDirectory opts) filename)))))"
proof -
  let ?it = "addPolicy (defaultApplyPointOr opts) (require (policyDirectory opts))"
  let ?dup = "\<lambda>n. ''Trying to add a duplicate policy: '' @ n"
  let ?bad = "''Trying to set incorrect applyPoint for the policy: ''
                @ js_toString (applyPoint (require (policyDirectory opts) filename))"
  have "eachSeries (pre @ filename # post) ?it (srv, d) = eachSeries (filename # post) ?it (srv1, d1)"
    by (rule eachSeries_append[OF assms(2)])
  also have "\<dots> = ?it filename (srv1, d1)"
    using assms(3) by (rule eachSeries_fails[of ?it filename "(srv1, d1)" e post])
  finally have load: "loadPolicies srv opts d = ?it filename (srv1, d1)"
    by (simp add: loadPolicies_def assms(1) Let_def)
  from addPolicy_error[OF assms(3)] obtain n where n: "js_match filename = Some n"
    and cases: "(n \<in> set (names d1) \<and> e = Error (?dup n) \<and>
                 snd (?it filename (srv1, d1)) = (server_log ''error'' (?dup n) srv1, d1))
              \<or> (n \<notin> set (names d1) \<and> \<not> hasValidApplyPoint (require (policyDirectory opts) filename) \<and>
                 e = Error ?bad \<and>
                 snd (?it filename (srv1, d1)) =
                   (server_log ''error'' ?bad srv1, d1\<lparr>names := names d1 @ [n]\<rparr>))"
    by blast
  have full: "?it filename (srv1, d1) = (Called (Some e), snd (?it filename (srv1, d1)))"
    using assms(3) by (cases "?it filename (srv1, d1)") simp
  have kept: "\<exists>srv2 d2. loadPolicies srv opts d = (Called (Some e), (srv2, d2)) \<and>
            exts srv2 = exts srv1 \<and> policiesAt d2 = policiesAt d1 \<and>
            setHandlers d2 = setHandlers d1 \<and> prefix (names d1) (names d2)"
    using cases
  proof
    assume a: "n \<in> set (names d1) \<and> e = Error (?dup n) \<and>
               snd (?it filename (srv1, d1)) = (server_log ''error'' (?dup n) srv1, d1)"
    show ?thesis
      unfolding load by (subst full) (simp add: a server_log_def)
  next
    assume a: "n \<notin> set (names d1) \<and> \<not> hasValidApplyPoint (require (policyDirectory opts) filename) \<and>
               e = Error ?bad \<and>
               snd (?it filename (srv1, d1)) =
                 (server_log ''error'' ?bad srv1, d1\<lparr>names := names d1 @ [n]\<rparr>)"
    show ?thesis
      unfolding load by (subst full) (simp add: a server_log_def)
  qed
  show ?thesis using load kept n cases by blast
qed

lemma mixedDirectory_good:
  "eachSeries [''good.js'', ''README.md'']
     (addPolicy (defaultApplyPointOr mixedDirectory) (require (policyDirectory mixedDirectory)))
     (new_server, reset)
   = (Called None,
      (\<lparr>exts = [OnPostAuth], logged = [(''info'', ''Adding a new PRE policy called good'')]\<rparr>,
       \<lparr>names = [''good''], setHandlers = [(OnPostAuth, True)],
        policiesAt = (\<lambda>a. [])(OnPostAuth := [(''good'', passes ''good'' JUndefined)])\<rparr>))"
  by (simp add: mixedDirectory_def eval_defs)

text \<open>
  The mixed directory: \<open>good\<close> is registered and stays, \<open>bad\<close> fails with its name
  pushed, \<open>late\<close> is never looked at.
\<close>

theorem bulk_load_stops_at_first_failure_witness:
  "(case loadPolicies new_server mixedDirectory reset of
      (c, srv, d) \<Rightarrow>
        c = Called (Some (Error ''Trying to set incorrect applyPoint for the policy: onSomething'')) \<and>
        exts srv = [OnPostAuth] \<and> names d = [''good'', ''bad''] \<and>
        map fst (policiesAt d OnPostAuth) = [''good''])"
  using bulk_load_stops_at_first_failure[of mixedDirectory "[''good.js'', ''README.md'']" "''bad.js''"
      "[''late.js'']" new_server reset _ _
      "Error ''Trying to set incorrect applyPoint for the policy: onSomething''", OF _ mixedDirectory_good]
  by (simp add: mixedDirectory_def eval_defs)

section \<open>Handlers registered with the server\<close>

lemma handlerSet_update: "handlerSet (AList.update ap True sh) V = (V = ap \<or> handlerSet sh V)"
  by (simp add: handlerSet_def update_conv')

lemma addPolicy_flagsMatch:
  "flagsMatch (snd st) \<Longrightarrow> flagsMatch (snd (snd (addPolicy dflt req filename st)))"
  by (cases st)
     (auto simp: addPolicy_def flagsMatch_def handlerSet_update Let_def split: option.splits)

lemma addPolicy_flaggedInstalled:
  "flaggedInstalled st \<Longrightarrow> flaggedInstalled (snd (addPolicy dflt req filename st))"
  by (cases st)
     (auto simp: addPolicy_def flaggedInstalled_def handlerSet_update Let_def
        server_ext_def server_log_def split: option.splits)

lemma addPolicy_installedFlagged:
  "installedFlagged st \<Longrightarrow> installedFlagged (snd (addPolicy dflt req filename st))"
  by (cases st)
     (auto simp: addPolicy_def installedFlagged_def handlerSet_update Let_def
        server_ext_def server_log_def split: option.splits)

lemma eachSeries_preserves:
  assumes "\<And>x s. P s \<Longrightarrow> P (snd (iterator x s))"
  shows "P s \<Longrightarrow> P (snd (eachSeries xs iterator s))"
proof (induction xs arbitrary: s)
  case Nil
  then show ?case by simp
next
  case (Cons x xs)
  obtain c s' where it: "iterator x s = (c, s')" by (cases "iterator x s")
  have "P s'" using assms[OF Cons.prems, of x] it by simp
  then show ?case using Cons.IH[of s'] it by (cases c) (auto split: option.splits)
qed

lemma loadPolicies_preserves:
  assumes "\<And>dflt req filename s. P s \<Longrightarrow> P (snd (addPolicy dflt req filename s))"
  shows "P (srv, d) \<Longrightarrow> P (snd (loadPolicies srv opts d))"
  using eachSeries_preserves[of P
      "addPolicy (defaultApplyPointOr opts) (require (policyDirectory opts))" "(srv, d)"
      "readdir (policyDirectory opts)"] assms
  by (simp add: loadPolicies_def Let_def)

lemma administer_flags:
  "flagsMatch (snd st) \<and> flaggedInstalled st \<Longrightarrow>
   flagsMatch (snd (administer ops st)) \<and> flaggedInstalled (administer ops st)"
proof (induction ops arbitrary: st)
  case Nil
  then show ?case by simp
next
  case (Cons op ops)
  show ?case
  proof (cases op)
    case (Load opts)
    let ?st' = "snd (loadPolicies (fst st) opts (snd st))"
    have "(flagsMatch \<circ> snd) ?st'"
      using loadPolicies_preserves[of "flagsMatch \<circ> snd" "fst st" "snd st" opts] Cons.prems
      by (simp add: addPolicy_flagsMatch)
    moreover have "flaggedInstalled ?st'"
      using loadPolicies_preserves[of flaggedInstalled "fst st" "snd st" opts] Cons.prems
      by (simp add: addPolicy_flaggedInstalled)
    ultimately show ?thesis using Cons.IH[of ?st'] Load by simp
  next
    case Reset
    have "flagsMatch (snd (fst st, reset :: 'a data)) \<and> flaggedInstalled (fst st, reset :: 'a data)"
      by (simp add: flagsMatch_def flaggedInstalled_def reset_def handlerSet_def)
    then show ?thesis using Cons.IH[of "(fst st, reset)"] Reset by simp
  qed
qed

lemma administer_installed:
  "installedFlagged st \<Longrightarrow> Reset \<notin> set ops \<Longrightarrow> installedFlagged (administer ops st)"
proof (induction ops arbitrary: st)
  case Nil
  then show ?case by simp
next
  case (Cons op ops)
  then obtain opts where op: "op = Load opts" by (cases op) auto
  let ?st' = "snd (loadPolicies (fst st) opts (snd st))"
  have "installedFlagged ?st'"
    using loadPolicies_preserves[of installedFlagged "fst st" "snd st" opts] Cons.prems(1)
    by (simp add: addPolicy_installedFlagged)
  then show ?case using Cons.IH[of ?st'] Cons.prems(2) op by simp
qed

lemma distinct_count_le_1: "distinct xs \<Longrightarrow> count_list xs x \<le> 1"
  by (induction xs) auto

text \<open>
  \<^bold>\<open>C4\<close>, as amended. Start from a server with no handler registered and an empty
  registry, and load and reset in any order. Then, for every apply point \<open>V\<close>: the
  \<open>setHandlers\<close> flag of \<open>V\<close> is set exactly when a policy is registered for \<open>V\<close>, and when
  a policy is registered for \<open>V\<close> the handler for \<open>V\<close> is registered with the server. As
  long as the registry has not been reset, the handler for \<open>V\<close> is registered with the
  server exactly when a policy is registered for \<open>V\<close>, and never more than once, so a
  second policy for the same apply point registers no second handler.
\<close>

theorem dispatcher_installed_iff_targeted:
  assumes "administer ops (srv0, reset) = (srv, d)" and "exts srv0 = []"
  shows "(handlerSet (setHandlers d) V \<longleftrightarrow> policiesAt d V \<noteq> []) \<and>
         (policiesAt d V \<noteq> [] \<longrightarrow> V \<in> set (exts srv)) \<and>
         (Reset \<notin> set ops \<longrightarrow>
            (V \<in> set (exts srv) \<longleftrightarrow> policiesAt d V \<noteq> []) \<and> count_list (exts srv) V \<le> 1)"
proof -
  let ?st0 = "(srv0, reset :: 'a data)"
  have init: "flagsMatch (snd ?st0) \<and> flaggedInstalled ?st0"
    by (simp add: flagsMatch_def flaggedInstalled_def reset_def handlerSet_def)
  from administer_flags[OF init, of ops] assms(1)
  have fm: "flagsMatch d" and fi: "flaggedInstalled (srv, d)" by simp_all
  have a: "handlerSet (setHandlers d) V \<longleftrightarrow> policiesAt d V \<noteq> []"
    using fm by (simp add: flagsMatch_def)
  have b: "policiesAt d V \<noteq> [] \<longrightarrow> V \<in> set (exts srv)"
    using a fi by (simp add: flaggedInstalled_def)
  have c: "(V \<in> set (exts srv) \<longleftrightarrow> policiesAt d V \<noteq> []) \<and> count_list (exts srv) V \<le> 1"
    if "Reset \<notin> set ops"
  proof -
    have "installedFlagged ?st0" using assms(2) by (simp add: installedFlagged_def)
    from administer_installed[OF this that] assms(1) have "installedFlagged (srv, d)" by simp
    then show ?thesis
      using a b distinct_count_le_1[of "exts srv" V] by (auto simp: installedFlagged_def)
  qed
  show ?thesis using a b c by blast
qed

lemma administer_twoPolicies:
  "administer [Load twoPolicies] (new_server, reset) =
     (\<lparr>exts = [OnPreHandler],
       logged = [(''info'', ''Adding a new PRE policy called first''),
                 (''info'', ''Adding a new PRE policy called second'')]\<rparr>,
      twoPoliciesLoaded)"
  by (simp add: twoPolicies_def twoPoliciesLoaded_def eval_defs)

text \<open>
  Two policies for \<open>onPreHandler\<close>: one handler, registered once; none for \<open>onPostAuth\<close>.
\<close>

theorem dispatcher_installed_iff_targeted_witness:
  "(case administer [Load twoPolicies] (new_server, reset) of
      (srv, d) \<Rightarrow>
        exts srv = [OnPreHandler] \<and> map fst (policiesAt d OnPreHandler) = [''first'', ''second'']
        \<and> count_list (exts srv) OnPreHandler \<le> 1
        \<and> OnPostAuth \<notin> set (exts srv) \<and> policiesAt d OnPostAuth = [])"
  using dispatcher_installed_iff_targeted[OF administer_twoPolicies, of OnPreHandler]
    dispatcher_installed_iff_targeted[OF administer_twoPolicies, of OnPostAuth]
  unfolding administer_twoPolicies by (simp add: new_server_def twoPoliciesLoaded_def)

text \<open>
  After a load and a reset the handler for \<open>onPreHandler\<close> is still registered with
  the server though no policy is registered for it, and a second load registers it a
  second time.
\<close>

theorem dispatcher_outlives_reset_counterexample:
  "(case administer [Load twoPolicies, Reset] (new_server, reset) of
      (srv, d) \<Rightarrow> OnPreHandler \<in> set (exts srv) \<and> policiesAt d OnPreHandler = []) \<and>
   (case administer [Load twoPolicies, Reset, Load twoPolicies] (new_server, reset) of
      (srv, d) \<Rightarrow> count_list (exts srv) OnPreHandler = 2)"
  by (simp add: twoPolicies_def eval_defs)

end
